theory Spec2Isabelle
  imports Complex_Main "HOL-Library.Sublist"
begin

section \<open>Data model of pdfanalyzer\<close>

text \<open>
  The dataclasses \<^verbatim>\<open>Span\<close> and \<^verbatim>\<open>Fragment\<close> of
  \<^verbatim>\<open>src/pdfanalyzer/__init__.py\<close>. Both classes have fields called
  \<^verbatim>\<open>font_size\<close>, \<^verbatim>\<open>font_family\<close>, \<^verbatim>\<open>text_color\<close> and
  \<^verbatim>\<open>text\<close>; the selectors carry the prefix \<open>span_\<close> or \<open>frag_\<close> to keep
  them apart. A font size is a Python float that the PDF library reports; it is only
  ever compared with \<^verbatim>\<open>==\<close> and \<^verbatim>\<open>!=\<close>, and it is modelled as a real
  number (a finite float; a NaN, which is unequal to itself, is not a font size).
  Colours and indices are Python integers, strings are character lists. The field
  \<^verbatim>\<open>Fragment.text\<close> defaults to \<^verbatim>\<open>None\<close>: an optional string.
\<close>

record Span =
  span_font_size :: real
  span_font_family :: string
  span_text_color :: int
  span_text :: string

record Fragment =
  index :: int
  spans :: "Span list"
  frag_font_size :: real
  frag_font_family :: string
  frag_text_color :: int
  frag_text :: "string option"

text \<open>The exception the analysed methods can raise: a list index out of range.\<close>

datatype py_error = IndexError

subsection \<open>Python list indexing and slicing\<close>

text \<open>
  \<^verbatim>\<open>xs[i]\<close>: a negative index counts from the end, an index outside the list raises
  \<^verbatim>\<open>IndexError\<close>.
\<close>

definition py_index :: "'a list \<Rightarrow> int \<Rightarrow> py_error + 'a" where
  "py_index xs i =
     (if 0 \<le> i \<and> i < int (length xs) then Inr (xs ! nat i)
      else if i < 0 \<and> - int (length xs) \<le> i then Inr (xs ! nat (int (length xs) + i))
      else Inl IndexError)"

text \<open>
  \<^verbatim>\<open>xs[start:end]\<close> never raises: a negative bound counts from the end, and every
  bound is clamped into \<open>0 .. len\<close>. \<open>slice_bound n i\<close> is the position a bound
  \<open>i\<close> denotes in a list of length \<open>n\<close>; an omitted end (\<^verbatim>\<open>None\<close>) is the
  length.
\<close>

definition slice_bound :: "nat \<Rightarrow> int \<Rightarrow> nat" where
  "slice_bound n i = (if i < 0 then nat (max (int n + i) 0) else min (nat i) n)"

definition slice_end :: "nat \<Rightarrow> int option \<Rightarrow> nat" where
  "slice_end n e = (case e of None \<Rightarrow> n | Some i \<Rightarrow> slice_bound n i)"

definition py_slice :: "'a list \<Rightarrow> int \<Rightarrow> int option \<Rightarrow> 'a list" where
  "py_slice xs start end =
     (let s = slice_bound (length xs) start; e = slice_end (length xs) end
      in take (e - s) (drop s xs))"

subsection \<open>Span and Fragment methods\<close>

definition has_equal_metadata :: "Span \<Rightarrow> Span \<Rightarrow> bool" where
  "has_equal_metadata self other =
     (span_font_size self = span_font_size other
      \<and> span_font_family self = span_font_family other
      \<and> span_text_color self = span_text_color other)"

text \<open>\<^verbatim>\<open>join_str.join(texts)\<close>: the texts with the separator between neighbours.\<close>

fun str_join :: "string \<Rightarrow> string list \<Rightarrow> string" where
  "str_join join_str [] = []"
| "str_join join_str [t] = t"
| "str_join join_str (t # u # ts) = t @ join_str @ str_join join_str (u # ts)"

definition to_string :: "Fragment \<Rightarrow> string \<Rightarrow> string" where
  "to_string self join_str = str_join join_str (map span_text (spans self))"

section \<open>PDFAnalyzer\<close>

text \<open>
  The analyzer's state is its list \<^verbatim>\<open>self._fragments\<close>. A method that reads it takes
  the list as an argument; a method that writes it returns the new list.
\<close>

subsection \<open>convert_to_fragments\<close>

definition make_fragment :: "int \<Rightarrow> Span list \<Rightarrow> Span \<Rightarrow> Fragment" where
  "make_fragment idx fragment previous =
     \<lparr>index = idx, spans = fragment,
      frag_font_size = span_font_size previous,
      frag_font_family = span_font_family previous,
      frag_text_color = span_text_color previous,
      frag_text = None\<rparr>"

text \<open>
  The loop over \<^verbatim>\<open>spans[1:]\<close>, with the loop variables \<^verbatim>\<open>previous\<close>,
  \<^verbatim>\<open>fragment\<close>, \<^verbatim>\<open>index\<close> and \<^verbatim>\<open>fragments\<close> as arguments. When the
  spans are used up, the run collected last is appended.
\<close>

fun fragments_loop ::
  "Span \<Rightarrow> Span list \<Rightarrow> int \<Rightarrow> Fragment list \<Rightarrow> Span list \<Rightarrow> Fragment list" where
  "fragments_loop previous fragment idx fragments [] =
     fragments @ [make_fragment idx fragment previous]"
| "fragments_loop previous fragment idx fragments (current # rest) =
     (if \<not> has_equal_metadata current previous
      then fragments_loop current [current] (idx + 1)
             (fragments @ [make_fragment idx fragment previous]) rest
      else fragments_loop current (fragment @ [current]) idx fragments rest)"

text \<open>\<^verbatim>\<open>previous = spans[0]\<close> raises \<^verbatim>\<open>IndexError\<close> on an empty list.\<close>

definition convert_to_fragments :: "Span list \<Rightarrow> py_error + Fragment list" where
  "convert_to_fragments spans_in =
     (case spans_in of
        [] \<Rightarrow> Inl IndexError
      | previous # rest \<Rightarrow> Inr (fragments_loop previous [previous] 0 [] rest))"

subsection \<open>get_fragments and get_fragment\<close>

definition get_fragments :: "Fragment list \<Rightarrow> int \<Rightarrow> int option \<Rightarrow> Fragment list" where
  "get_fragments fragments start end = py_slice fragments start end"

definition get_fragment :: "Fragment list \<Rightarrow> int \<Rightarrow> py_error + Fragment" where
  "get_fragment fragments i = py_index fragments i"

subsection \<open>join_hyperlinks\<close>

text \<open>
  \<^verbatim>\<open>HYPERLINK_PATTERN = re.compile(r"^(http|https)://")\<close>, used with
  \<^verbatim>\<open>match\<close>: the text starts with one of the two alternatives followed by
  \<^verbatim>\<open>://\<close>.
\<close>

definition HYPERLINK_PATTERN_match :: "string \<Rightarrow> bool" where
  "HYPERLINK_PATTERN_match s =
     list_ex (\<lambda>scheme. prefix (scheme @ ''://'') s) [''http'', ''https'']"

text \<open>
  The body of the loop for one fragment. The colour is tested first; only for a
  fragment of the hyperlink colour is \<^verbatim>\<open>fragment.spans[0]\<close> read, which raises
  \<^verbatim>\<open>IndexError\<close> when the fragment has no span.
\<close>

definition join_fragment :: "Fragment \<Rightarrow> py_error + Fragment" where
  "join_fragment fragment =
     (if frag_text_color fragment = 1544191
      then (case spans fragment of
              [] \<Rightarrow> Inl IndexError
            | first # _ \<Rightarrow>
                if HYPERLINK_PATTERN_match (span_text first)
                then Inr (fragment\<lparr>frag_text := Some (to_string fragment [])\<rparr>)
                else Inr fragment)
      else Inr fragment)"

text \<open>
  The loop over the slice. The fragments are objects shared with
  \<^verbatim>\<open>self._fragments\<close> and are changed in place, so an exception leaves the fragments
  before it changed: the loop returns the fragments as they are when it ends, and the
  exception if there is one.
\<close>

fun join_loop :: "Fragment list \<Rightarrow> Fragment list \<times> py_error option" where
  "join_loop [] = ([], None)"
| "join_loop (fragment # rest) =
     (case join_fragment fragment of
        Inl e \<Rightarrow> (fragment # rest, Some e)
      | Inr fragment' \<Rightarrow>
          (case join_loop rest of (rest', r) \<Rightarrow> (fragment' # rest', r)))"

definition join_hyperlinks ::
  "Fragment list \<Rightarrow> int \<Rightarrow> int option \<Rightarrow> Fragment list \<times> py_error option" where
  "join_hyperlinks fragments start end =
     (let s = slice_bound (length fragments) start;
          e = slice_end (length fragments) end
      in case join_loop (py_slice fragments start end) of
           (joined, r) \<Rightarrow> (take s fragments @ joined @ drop (max s e) fragments, r))"

subsection \<open>get_paragraph\<close>

text \<open>
  \<^verbatim>\<open>fragment.text or fragment.to_string()\<close>: the override text when it is neither
  \<^verbatim>\<open>None\<close> nor the empty string (both are false in Python), else the span texts
  joined with the default separator, one space.
\<close>

definition text_or_to_string :: "Fragment \<Rightarrow> string" where
  "text_or_to_string fragment =
     (case frag_text fragment of
        None \<Rightarrow> to_string fragment '' ''
      | Some t \<Rightarrow> if t = [] then to_string fragment '' '' else t)"

text \<open>
  The loop over \<^verbatim>\<open>self._fragments[start + 1 : end]\<close> with its variables
  \<^verbatim>\<open>previous\<close>, \<^verbatim>\<open>paragraph\<close> and \<^verbatim>\<open>break_index\<close>.
\<close>

fun paragraph_loop ::
  "Fragment \<Rightarrow> string list \<Rightarrow> int \<Rightarrow> Fragment list \<Rightarrow> string list \<times> int" where
  "paragraph_loop previous paragraph break_index [] = (paragraph, break_index)"
| "paragraph_loop previous paragraph break_index (current # rest) =
     (if frag_font_size current \<noteq> frag_font_size previous
      then (paragraph, index current)
      else paragraph_loop current (paragraph @ [text_or_to_string current])
             break_index rest)"

definition get_paragraph ::
  "Fragment list \<Rightarrow> int \<Rightarrow> int option \<Rightarrow> py_error + (string \<times> int)" where
  "get_paragraph fragments start end =
     (case py_index fragments start of
        Inl e \<Rightarrow> Inl e
      | Inr previous \<Rightarrow>
          (case paragraph_loop previous [text_or_to_string previous] (index previous)
                  (py_slice fragments (start + 1) end) of
             (paragraph, break_index) \<Rightarrow> Inr (concat paragraph, break_index)))"

subsection \<open>get_index_by_text\<close>

text \<open>The inner loop over \<^verbatim>\<open>enumerate(fragment.spans)\<close>, from position \<open>i\<close>.\<close>

fun find_span :: "string \<Rightarrow> nat \<Rightarrow> Span list \<Rightarrow> nat option" where
  "find_span t i [] = None"
| "find_span t i (sp # rest) =
     (if span_text sp = t then Some i else find_span t (Suc i) rest)"

fun index_loop :: "string \<Rightarrow> Fragment list \<Rightarrow> int \<times> int" where
  "index_loop t [] = (-1, -1)"
| "index_loop t (fragment # rest) =
     (case find_span t 0 (spans fragment) of
        Some i \<Rightarrow> (index fragment, int i)
      | None \<Rightarrow> index_loop t rest)"

definition get_index_by_text ::
  "Fragment list \<Rightarrow> string \<Rightarrow> int \<Rightarrow> int option \<Rightarrow> int \<times> int" where
  "get_index_by_text fragments t start end = index_loop t (py_slice fragments start end)"

subsection \<open>The operations on an analyzer\<close>

text \<open>
  The methods a client calls on an analyzer after its construction, with their
  arguments, and what a call gives back: a value or an exception. \<open>perform\<close> is one
  call on an analyzer with the fragment list \<open>fragments\<close>; it returns the outcome and
  the fragment list after the call. \<open>join_hyperlinks\<close> is the only method with an
  assignment to a fragment; the other methods read \<^verbatim>\<open>self._fragments\<close>, and
  \<open>convert_to_fragments\<close> works on its argument alone. \<open>perform_all\<close> is the
  fragment list after a sequence of calls, whatever their outcomes.
\<close>

datatype operation =
    Get_fragments int "int option"
  | Get_fragment int
  | Convert_to_fragments "Span list"
  | Join_hyperlinks int "int option"
  | Get_paragraph int "int option"
  | Get_index_by_text string int "int option"

datatype outcome =
    Returned_fragments "Fragment list"
  | Returned_fragment Fragment
  | Returned_none
  | Returned_paragraph string int
  | Returned_indices int int
  | Raised py_error

fun perform :: "operation \<Rightarrow> Fragment list \<Rightarrow> outcome \<times> Fragment list" where
  "perform (Get_fragments start end) fragments =
     (Returned_fragments (get_fragments fragments start end), fragments)"
| "perform (Get_fragment i) fragments =
     (case get_fragment fragments i of
        Inl e \<Rightarrow> Raised e
      | Inr fragment \<Rightarrow> Returned_fragment fragment, fragments)"
| "perform (Convert_to_fragments spans_in) fragments =
     (case convert_to_fragments spans_in of
        Inl e \<Rightarrow> Raised e
      | Inr made \<Rightarrow> Returned_fragments made, fragments)"
| "perform (Join_hyperlinks start end) fragments =
     (case join_hyperlinks fragments start end of
        (fragments', None) \<Rightarrow> (Returned_none, fragments')
      | (fragments', Some e) \<Rightarrow> (Raised e, fragments'))"
| "perform (Get_paragraph start end) fragments =
     (case get_paragraph fragments start end of
        Inl e \<Rightarrow> Raised e
      | Inr (text, break_index) \<Rightarrow> Returned_paragraph text break_index, fragments)"
| "perform (Get_index_by_text t start end) fragments =
     (case get_index_by_text fragments t start end of
        (fragment_index, span_index) \<Rightarrow> Returned_indices fragment_index span_index,
      fragments)"

fun perform_all :: "operation list \<Rightarrow> Fragment list \<Rightarrow> Fragment list" where
  "perform_all [] fragments = fragments"
| "perform_all (operation # rest) fragments =
     perform_all rest (snd (perform operation fragments))"

section \<open>Auxiliary definitions\<close>

text \<open>
  The metadata of a span and of a fragment as a triple: \<open>has_equal_metadata\<close> compares
  the triples of two spans, and a fragment stores the triple of the last span of its run.
\<close>

definition span_meta :: "Span \<Rightarrow> real \<times> string \<times> int" where
  "span_meta s = (span_font_size s, span_font_family s, span_text_color s)"

definition frag_meta :: "Fragment \<Rightarrow> real \<times> string \<times> int" where
  "frag_meta f = (frag_font_size f, frag_font_family f, frag_text_color f)"

text \<open>
  The spans of the first example scenario of the specification and the fragments
  built from them.
\<close>

definition example_spans :: "Span list" where
  "example_spans =
     [\<lparr>span_font_size = 12, span_font_family = ''Arial'', span_text_color = 0, span_text = ''Hello''\<rparr>,
      \<lparr>span_font_size = 12, span_font_family = ''Arial'', span_text_color = 0, span_text = '' World''\<rparr>,
      \<lparr>span_font_size = 14, span_font_family = ''Arial'', span_text_color = 0, span_text = ''Title''\<rparr>]"

definition example_fragments :: "Fragment list" where
  "example_fragments =
     [\<lparr>index = 0, spans = take 2 example_spans, frag_font_size = 12,
       frag_font_family = ''Arial'', frag_text_color = 0, frag_text = None\<rparr>,
      \<lparr>index = 1, spans = drop 2 example_spans, frag_font_size = 14,
       frag_font_family = ''Arial'', frag_text_color = 0, frag_text = None\<rparr>]"

text \<open>
  Fragments for the examples: \<open>sized_fragment i sz texts override\<close> has the index
  \<open>i\<close>, one span per text, the font size \<open>sz\<close> and the given override text.
  The font sizes of \<open>paragraph_fragments\<close> are those of the third example scenario
  of the specification.
\<close>

definition sized_fragment :: "int \<Rightarrow> real \<Rightarrow> string list \<Rightarrow> string option \<Rightarrow> Fragment" where
  "sized_fragment i sz texts override =
     \<lparr>index = i,
      spans = map (\<lambda>t. \<lparr>span_font_size = sz, span_font_family = ''Arial'',
                         span_text_color = 0, span_text = t\<rparr>) texts,
      frag_font_size = sz, frag_font_family = ''Arial'', frag_text_color = 0,
      frag_text = override\<rparr>"

definition paragraph_fragments :: "Fragment list" where
  "paragraph_fragments =
     [sized_fragment 0 12 [''ab'', ''cd''] None,
      sized_fragment 1 12 [''ef''] (Some ''gh''),
      sized_fragment 2 14 [''ij''] None,
      sized_fragment 3 12 [''kl''] None]"

definition empty_override_fragments :: "Fragment list" where
  "empty_override_fragments =
     [sized_fragment 0 12 [''ab'', ''cd''] (Some []),
      sized_fragment 1 12 [''ef'', ''gh''] (Some [])]"

text \<open>A fragment with its override text taken away when it is the empty string.\<close>

definition absent_if_empty :: "Fragment \<Rightarrow> Fragment" where
  "absent_if_empty fragment =
     (if frag_text fragment = Some [] then fragment\<lparr>frag_text := None\<rparr> else fragment)"

text \<open>
  Fragments of one colour for the hyperlink examples, and a sequence of calls.
\<close>

definition link_fragment :: "int \<Rightarrow> int \<Rightarrow> string list \<Rightarrow> Fragment" where
  "link_fragment i color texts =
     \<lparr>index = i,
      spans = map (\<lambda>t. \<lparr>span_font_size = 10, span_font_family = ''Arial'',
                         span_text_color = color, span_text = t\<rparr>) texts,
      frag_font_size = 10, frag_font_family = ''Arial'', frag_text_color = color,
      frag_text = None\<rparr>"

definition link_fragments :: "Fragment list" where
  "link_fragments =
     [link_fragment 0 1544191 [''https://example.com'', ''/index''],
      link_fragment 1 1544191 [''not a link''],
      link_fragment 2 0 [''http://example.org''],
      link_fragment 3 1544191 [''http://example.org'']]"

definition example_operations :: "operation list" where
  "example_operations =
     [Get_paragraph 0 None, Join_hyperlinks 0 None, Get_fragment 7,
      Get_index_by_text ''/index'' 0 None]"

text \<open>
  The condition of the hyperlink merger as the specification words it, the fragment with
  its span texts concatenated as override text, and the relation between a fragment
  before and after any number of calls.
\<close>

definition is_hyperlink :: "Fragment \<Rightarrow> bool" where
  "is_hyperlink fragment =
     (frag_text_color fragment = 1544191
      \<and> (prefix ''http://'' (span_text (hd (spans fragment)))
         \<or> prefix ''https://'' (span_text (hd (spans fragment)))))"

definition joined_text :: "Fragment \<Rightarrow> Fragment" where
  "joined_text fragment =
     fragment\<lparr>frag_text := Some (concat (map span_text (spans fragment)))\<rparr>"

definition kept_or_joined :: "Fragment \<Rightarrow> Fragment \<Rightarrow> bool" where
  "kept_or_joined before after =
     (after = before
      \<or> (is_hyperlink before \<and> spans before \<noteq> [] \<and> after = joined_text before))"

fun is_join :: "operation \<Rightarrow> bool" where
  "is_join (Join_hyperlinks start end) = True"
| "is_join _ = False"

text \<open>The positions of the spans of a list whose text is \<open>t\<close>, in order.\<close>

definition matching_positions :: "string \<Rightarrow> Span list \<Rightarrow> nat list" where
  "matching_positions t sps = filter (\<lambda>i. span_text (sps ! i) = t) [0..<length sps]"

section \<open>The fragment builder\<close>

text \<open>
  C8. Given an empty span sequence, \<open>convert_to_fragments\<close> produces no fragment list
  and signals an error: reading \<^verbatim>\<open>spans[0]\<close> raises \<^verbatim>\<open>IndexError\<close>. It is the
  only error the builder raises, and it is raised for the empty sequence only.
\<close>

theorem convert_to_fragments_empty:
  "convert_to_fragments [] = Inl IndexError
   \<and> (\<forall>spans_in. isl (convert_to_fragments spans_in) = (spans_in = []))"
  by (simp add: convert_to_fragments_def split: list.split)

lemma has_equal_metadata_meta: "has_equal_metadata a b = (span_meta a = span_meta b)"
  by (auto simp: has_equal_metadata_def span_meta_def)

lemma make_fragment_sel [simp]:
  "index (make_fragment i fr p) = i"
  "spans (make_fragment i fr p) = fr"
  "frag_meta (make_fragment i fr p) = span_meta p"
  "frag_text (make_fragment i fr p) = None"
  by (simp_all add: make_fragment_def frag_meta_def span_meta_def)

lemma fragments_loop_concat:
  "concat (map spans (fragments_loop previous fragment idx fragments rest))
   = concat (map spans fragments) @ fragment @ rest"
  by (induction rest arbitrary: previous fragment idx fragments) simp_all

lemma fragments_loop_uniform:
  assumes "\<forall>f \<in> set fragments. spans f \<noteq> [] \<and> (\<forall>s \<in> set (spans f). span_meta s = frag_meta f)"
    and "fragment \<noteq> []" and "\<forall>s \<in> set fragment. span_meta s = span_meta previous"
  shows "\<forall>f \<in> set (fragments_loop previous fragment idx fragments rest).
           spans f \<noteq> [] \<and> (\<forall>s \<in> set (spans f). span_meta s = frag_meta f)"
  using assms
proof (induction rest arbitrary: previous fragment idx fragments)
  case Nil
  then show ?case by auto
next
  case (Cons current rest)
  show ?case
  proof (cases "has_equal_metadata current previous")
    case True
    then have eq: "span_meta current = span_meta previous"
      by (simp add: has_equal_metadata_meta)
    have *: "\<forall>s \<in> set (fragment @ [current]). span_meta s = span_meta current"
      using Cons.prems(3) eq by auto
    have "fragments_loop previous fragment idx fragments (current # rest)
          = fragments_loop current (fragment @ [current]) idx fragments rest"
      using True by simp
    moreover note Cons.IH [OF Cons.prems(1) _ *]
    ultimately show ?thesis by simp
  next
    case False
    have *: "\<forall>f \<in> set (fragments @ [make_fragment idx fragment previous]).
            spans f \<noteq> [] \<and> (\<forall>s \<in> set (spans f). span_meta s = frag_meta f)"
      using Cons.prems by auto
    have "fragments_loop previous fragment idx fragments (current # rest)
          = fragments_loop current [current] (idx + 1)
              (fragments @ [make_fragment idx fragment previous]) rest"
      using False by simp
    moreover have "\<forall>f \<in> set (fragments_loop current [current] (idx + 1)
              (fragments @ [make_fragment idx fragment previous]) rest).
            spans f \<noteq> [] \<and> (\<forall>s \<in> set (spans f). span_meta s = frag_meta f)"
      by (rule Cons.IH [OF *]) simp_all
    ultimately show ?thesis by simp
  qed
qed

lemma fragments_loop_index:
  assumes "map index fragments = map int [0..<length fragments]"
    and "idx = int (length fragments)"
  shows "map index (fragments_loop previous fragment idx fragments rest)
         = map int [0..<length (fragments_loop previous fragment idx fragments rest)]"
  using assms
proof (induction rest arbitrary: previous fragment idx fragments)
  case Nil
  then show ?case by simp
next
  case (Cons current rest)
  show ?case
  proof (cases "has_equal_metadata current previous")
    case True
    with Cons.IH [OF Cons.prems] show ?thesis by simp
  next
    case False
    have a: "map index (fragments @ [make_fragment idx fragment previous])
          = map int [0..<length (fragments @ [make_fragment idx fragment previous])]"
      using Cons.prems by simp
    have b: "idx + 1 = int (length (fragments @ [make_fragment idx fragment previous]))"
      using Cons.prems(2) by simp
    from Cons.IH [OF a b] False show ?thesis by simp
  qed
qed

lemma fragments_loop_adjacent:
  assumes "distinct_adj (map frag_meta fragments @ [span_meta previous])"
  shows "distinct_adj (map frag_meta (fragments_loop previous fragment idx fragments rest))"
  using assms
proof (induction rest arbitrary: previous fragment idx fragments)
  case Nil
  then show ?case by simp
next
  case (Cons current rest)
  show ?case
  proof (cases "has_equal_metadata current previous")
    case True
    then have "span_meta current = span_meta previous"
      by (simp add: has_equal_metadata_meta)
    with Cons.prems have "distinct_adj (map frag_meta fragments @ [span_meta current])"
      by simp
    from Cons.IH [OF this] True show ?thesis by simp
  next
    case False
    then have "span_meta current \<noteq> span_meta previous"
      by (simp add: has_equal_metadata_meta)
    then have "distinct_adj (map frag_meta (fragments @ [make_fragment idx fragment previous])
                 @ [span_meta current])"
      using Cons.prems by (simp add: distinct_adj_append_iff)
    from Cons.IH [OF this] False show ?thesis by simp
  qed
qed

lemma convert_example: "convert_to_fragments example_spans = Inr example_fragments"
  by (simp add: convert_to_fragments_def example_spans_def example_fragments_def
      has_equal_metadata_def make_fragment_def)

text \<open>
  C2. For every non-empty span sequence the builder returns a fragment list, and the
  span lists of its fragments, concatenated in fragment order, are the input sequence:
  no span is lost, duplicated or reordered.
\<close>

theorem convert_to_fragments_concat:
  "spans_in \<noteq> [] \<Longrightarrow>
   \<exists>fragments. convert_to_fragments spans_in = Inr fragments
     \<and> concat (map spans fragments) = spans_in"
  by (cases spans_in) (simp_all add: convert_to_fragments_def fragments_loop_concat)

theorem convert_to_fragments_concat_witness:
  "example_spans \<noteq> []
   \<and> convert_to_fragments example_spans = Inr example_fragments
   \<and> concat (map spans example_fragments) = example_spans"
  using convert_to_fragments_concat [of example_spans]
  by (simp add: convert_example) (simp add: example_spans_def)

text \<open>
  C3. For every non-empty span sequence, in the fragment list the builder returns every
  fragment owns at least one span, any two spans of one fragment are metadata-equal,
  any span of a fragment is metadata-unequal to any span of the next fragment, and the
  fragment at position \<open>i\<close> has the index field \<open>i\<close>: the indices are
  \<open>0, 1, 2, ...\<close> without a gap.
\<close>

theorem convert_to_fragments_partition:
  assumes "spans_in \<noteq> []"
  shows "\<exists>fragments. convert_to_fragments spans_in = Inr fragments
     \<and> (\<forall>f \<in> set fragments. spans f \<noteq> []
           \<and> (\<forall>a \<in> set (spans f). \<forall>b \<in> set (spans f). has_equal_metadata a b))
     \<and> (\<forall>i. Suc i < length fragments \<longrightarrow>
           (\<forall>a \<in> set (spans (fragments ! i)). \<forall>b \<in> set (spans (fragments ! Suc i)).
              \<not> has_equal_metadata a b))
     \<and> (\<forall>i < length fragments. index (fragments ! i) = int i)"
proof -
  from assms obtain previous rest where sp: "spans_in = previous # rest"
    by (cases spans_in) auto
  define fragments where "fragments = fragments_loop previous [previous] 0 [] rest"
  have conv: "convert_to_fragments spans_in = Inr fragments"
    by (simp add: sp convert_to_fragments_def fragments_def)
  have uni: "\<forall>f \<in> set fragments. spans f \<noteq> []
               \<and> (\<forall>s \<in> set (spans f). span_meta s = frag_meta f)"
    unfolding fragments_def by (rule fragments_loop_uniform) simp_all
  have adj: "distinct_adj (map frag_meta fragments)"
    unfolding fragments_def by (rule fragments_loop_adjacent) simp
  have idx: "map index fragments = map int [0..<length fragments]"
    unfolding fragments_def by (rule fragments_loop_index) simp_all
  have within: "\<forall>f \<in> set fragments. spans f \<noteq> []
           \<and> (\<forall>a \<in> set (spans f). \<forall>b \<in> set (spans f). has_equal_metadata a b)"
    using uni by (simp add: has_equal_metadata_meta)
  have across: "\<not> has_equal_metadata a b"
    if "Suc i < length fragments" "a \<in> set (spans (fragments ! i))"
      "b \<in> set (spans (fragments ! Suc i))" for i a b
  proof -
    have "frag_meta (fragments ! i) \<noteq> frag_meta (fragments ! Suc i)"
      using distinct_adj_nth [OF adj, of i] that(1) by simp
    moreover have "span_meta a = frag_meta (fragments ! i)"
      using uni that(1,2) by simp
    moreover have "span_meta b = frag_meta (fragments ! Suc i)"
      using uni that(1,3) by simp
    ultimately show ?thesis by (simp add: has_equal_metadata_meta)
  qed
  have nth: "index (fragments ! i) = int i" if "i < length fragments" for i
  proof -
    have "map index fragments ! i = map int [0..<length fragments] ! i"
      by (simp only: idx)
    with that show ?thesis by simp
  qed
  from conv within across nth show ?thesis by blast
qed

theorem convert_to_fragments_partition_witness:
  "example_spans \<noteq> []
   \<and> convert_to_fragments example_spans = Inr example_fragments
   \<and> has_equal_metadata (example_spans ! 0) (example_spans ! 1)
   \<and> \<not> has_equal_metadata (example_spans ! 1) (example_spans ! 2)
   \<and> index (example_fragments ! 0) = 0 \<and> index (example_fragments ! 1) = 1"
proof -
  have ne: "example_spans \<noteq> []"
    by (simp add: example_spans_def)
  from convert_to_fragments_partition [OF ne] obtain fragments where
    conv: "convert_to_fragments example_spans = Inr fragments" and
    within: "\<forall>f \<in> set fragments. spans f \<noteq> []
           \<and> (\<forall>a \<in> set (spans f). \<forall>b \<in> set (spans f). has_equal_metadata a b)" and
    across: "\<forall>i. Suc i < length fragments \<longrightarrow>
           (\<forall>a \<in> set (spans (fragments ! i)). \<forall>b \<in> set (spans (fragments ! Suc i)).
              \<not> has_equal_metadata a b)" and
    idx: "\<forall>i < length fragments. index (fragments ! i) = int i"
    by blast
  from conv have fr: "fragments = example_fragments"
    by (simp add: convert_example)
  have "has_equal_metadata (example_spans ! 0) (example_spans ! 1)"
    using within by (simp add: fr example_fragments_def example_spans_def)
  moreover have "\<not> has_equal_metadata (example_spans ! 1) (example_spans ! 2)"
    using across [rule_format, of 0 "example_spans ! 1" "example_spans ! 2"]
    by (simp add: fr example_fragments_def example_spans_def)
  moreover have "index (example_fragments ! 0) = 0 \<and> index (example_fragments ! 1) = 1"
    using idx [rule_format, of 0] idx [rule_format, of 1]
    by (simp add: fr example_fragments_def)
  ultimately show ?thesis
    using ne by (simp add: convert_example)
qed

section \<open>The paragraph assembler\<close>

lemma py_index_in_bounds:
  "0 \<le> start \<Longrightarrow> start < int (length xs) \<Longrightarrow> py_index xs start = Inr (xs ! nat start)"
  by (simp add: py_index_def)

lemma py_index_map:
  "py_index (map f xs) i = (case py_index xs i of Inl e \<Rightarrow> Inl e | Inr x \<Rightarrow> Inr (f x))"
proof -
  have "map f xs ! nat (int (length xs) + i) = f (xs ! nat (int (length xs) + i))"
    if "i < 0" "- int (length xs) \<le> i"
    using that by (intro nth_map) linarith
  moreover have "map f xs ! nat i = f (xs ! nat i)" if "0 \<le> i" "i < int (length xs)"
    using that by (intro nth_map) linarith
  ultimately show ?thesis
    by (auto simp: py_index_def)
qed

lemma slice_bound_nonneg: "0 \<le> i \<Longrightarrow> slice_bound n i = min (nat i) n"
  by (simp add: slice_bound_def)

lemma py_slice_step:
  assumes "0 \<le> start" and "start < int (length xs)" and "py_slice xs start end \<noteq> []"
  shows "py_slice xs start end = xs ! nat start # py_slice xs (start + 1) end"
proof -
  let ?e = "slice_end (length xs) end"
  have s: "slice_bound (length xs) start = nat start"
    using assms(1,2) by (simp add: slice_bound_nonneg)
  have s': "slice_bound (length xs) (start + 1) = Suc (nat start)"
    using assms(1,2) by (simp add: slice_bound_nonneg nat_add_distrib)
  from assms(3) have lt: "nat start < ?e"
    by (simp add: py_slice_def s Let_def)
  have "take (?e - nat start) (drop (nat start) xs)
        = xs ! nat start # take (?e - Suc (nat start)) (drop (Suc (nat start)) xs)"
  proof -
    have "drop (nat start) xs = xs ! nat start # drop (Suc (nat start)) xs"
      using assms(1,2) by (simp add: Cons_nth_drop_Suc)
    moreover obtain d where "?e - nat start = Suc d" "?e - Suc (nat start) = d"
      using lt by (cases "?e - nat start") auto
    ultimately show ?thesis by simp
  qed
  then show ?thesis
    by (simp add: py_slice_def s s' Let_def)
qed

lemma py_slice_map: "py_slice (map f xs) start end = map f (py_slice xs start end)"
  by (simp add: py_slice_def Let_def take_map drop_map)

lemma paragraph_loop_run:
  assumes "\<forall>i < length run. frag_font_size (run ! i) = frag_font_size ((previous # run) ! i)"
  shows "paragraph_loop previous acc b (run @ rest)
         = paragraph_loop (last (previous # run)) (acc @ map text_or_to_string run) b rest"
  using assms
proof (induction run arbitrary: previous acc)
  case Nil
  then show ?case by simp
next
  case (Cons current run)
  from Cons.prems [rule_format, of 0] have eq: "frag_font_size current = frag_font_size previous"
    by simp
  have "\<forall>i < length run. frag_font_size (run ! i) = frag_font_size ((current # run) ! i)"
  proof (intro allI impI)
    fix i assume "i < length run"
    with Cons.prems [rule_format, of "Suc i"] show
      "frag_font_size (run ! i) = frag_font_size ((current # run) ! i)" by simp
  qed
  from Cons.IH [OF this] eq show ?case by simp
qed

lemma same_size_run:
  assumes "\<forall>f \<in> set run. frag_font_size f = frag_font_size previous"
  shows "\<forall>i < length run. frag_font_size (run ! i) = frag_font_size ((previous # run) ! i)"
proof (intro allI impI)
  fix i assume i: "i < length run"
  show "frag_font_size (run ! i) = frag_font_size ((previous # run) ! i)"
  proof (cases i)
    case 0
    with i assms show ?thesis by simp
  next
    case (Suc j)
    with i assms show ?thesis by simp
  qed
qed

lemma get_paragraph_split:
  assumes "0 \<le> start" and "start < int (length fragments)"
    and "py_slice fragments (start + 1) end = run @ rest"
    and "\<forall>i < length run.
           frag_font_size (run ! i) = frag_font_size ((fragments ! nat start # run) ! i)"
  shows "get_paragraph fragments start end =
           (case paragraph_loop (last (fragments ! nat start # run))
                   (map text_or_to_string (fragments ! nat start # run))
                   (index (fragments ! nat start)) rest of
              (p, b) \<Rightarrow> Inr (concat p, b))"
  using paragraph_loop_run [OF assms(4), of "[text_or_to_string (fragments ! nat start)]"
      "index (fragments ! nat start)" rest]
  by (simp add: get_paragraph_def py_index_in_bounds [OF assms(1,2)] assms(3))





lemma paragraph_range: "py_slice paragraph_fragments 0 (Some 2) = take 2 paragraph_fragments"
  by (simp add: py_slice_def slice_bound_def slice_end_def paragraph_fragments_def)

lemma paragraph_two: "get_paragraph paragraph_fragments 0 (Some 2) = Inr (''ab cdgh'', 0)"
  by (simp add: get_paragraph_def py_index_def py_slice_def slice_bound_def slice_end_def
      paragraph_fragments_def sized_fragment_def text_or_to_string_def to_string_def)



text \<open>
  C1. The claim that without a size change the break index is the index of the last
  fragment of the range fails: in \<open>paragraph_fragments\<close> the range \<open>[0, 2)\<close>
  holds two fragments of size 12, the last of them has the index 1, and the break index
  returned is 0.
\<close>

theorem get_paragraph_break_index_counterexample:
  "(0::int) \<le> 0 \<and> (0::int) < int (length paragraph_fragments)
   \<and> length (py_slice paragraph_fragments 0 (Some 2)) = 2
   \<and> map frag_font_size (py_slice paragraph_fragments 0 (Some 2)) = [12, 12]
   \<and> frag_font_size (paragraph_fragments ! 0) = 12
   \<and> index (last (py_slice paragraph_fragments 0 (Some 2))) = 1
   \<and> get_paragraph paragraph_fragments 0 (Some 2) = Inr (''ab cdgh'', 0)
   \<and> get_paragraph paragraph_fragments 0 (Some 2)
       \<noteq> Inr (''ab cdgh'', index (last (py_slice paragraph_fragments 0 (Some 2))))"
  by (simp add: paragraph_range paragraph_two)
     (simp add: paragraph_fragments_def sized_fragment_def)

text \<open>
  C1 as amended. For a start index inside the fragment list and a range
  \<open>[start, end)\<close> of at least two fragments that all have the font size of the
  starting fragment, \<open>get_paragraph\<close> returns the texts of the range and, as break
  index, the index of the starting fragment: \<^verbatim>\<open>break_index\<close> is set to
  \<^verbatim>\<open>previous.index\<close> before the loop and written again only at a size change.
\<close>

theorem get_paragraph_no_size_change:
  assumes "0 \<le> start" and "start < int (length fragments)"
    and "2 \<le> length (py_slice fragments start end)"
    and "\<forall>f \<in> set (py_slice fragments start end).
           frag_font_size f = frag_font_size (fragments ! nat start)"
  shows "get_paragraph fragments start end =
           Inr (concat (map text_or_to_string (py_slice fragments start end)),
                index (fragments ! nat start))"
proof -
  from assms(3) have ne: "py_slice fragments start end \<noteq> []" by auto
  note step = py_slice_step [OF assms(1,2) ne]
  let ?run = "py_slice fragments (start + 1) end"
  have "\<forall>f \<in> set ?run. frag_font_size f = frag_font_size (fragments ! nat start)"
    using assms(4) by (subst (asm) step) simp
  then have run: "\<forall>i < length ?run.
      frag_font_size (?run ! i) = frag_font_size ((fragments ! nat start # ?run) ! i)"
    by (rule same_size_run)
  have "?run = ?run @ []" by simp
  from get_paragraph_split [OF assms(1,2) this run] show ?thesis
    by (subst step) simp
qed

theorem get_paragraph_no_size_change_witness:
  "(0::int) \<le> 0 \<and> (0::int) < int (length paragraph_fragments)
   \<and> 2 \<le> length (py_slice paragraph_fragments 0 (Some 2))
   \<and> map frag_font_size (py_slice paragraph_fragments 0 (Some 2)) = [12, 12]
   \<and> frag_font_size (paragraph_fragments ! nat 0) = 12
   \<and> get_paragraph paragraph_fragments 0 (Some 2)
       = Inr (concat (map text_or_to_string (py_slice paragraph_fragments 0 (Some 2))),
              index (paragraph_fragments ! nat 0))
   \<and> index (paragraph_fragments ! nat 0) = 0"
proof -
  have b: "(0::int) \<le> 0 \<and> (0::int) < int (length paragraph_fragments)"
    by (simp add: paragraph_fragments_def)
  have len: "2 \<le> length (py_slice paragraph_fragments 0 (Some 2))"
    by (simp add: paragraph_range) (simp add: paragraph_fragments_def)
  have sizes: "map frag_font_size (py_slice paragraph_fragments 0 (Some 2)) = [12, 12]"
    "frag_font_size (paragraph_fragments ! nat 0) = 12"
    "index (paragraph_fragments ! nat 0) = 0"
    by (simp_all add: paragraph_range) (simp_all add: paragraph_fragments_def sized_fragment_def)
  have same: "\<forall>f \<in> set (py_slice paragraph_fragments 0 (Some 2)).
           frag_font_size f = frag_font_size (paragraph_fragments ! nat 0)"
    by (simp add: paragraph_range) (simp add: paragraph_fragments_def sized_fragment_def)
  from get_paragraph_no_size_change [OF conjunct1 [OF b] conjunct2 [OF b] len same] b len sizes
  show ?thesis by simp
qed

text \<open>
  The two theorems above take the start index from the front of the list. A negative
  start index is valid in Python and counts from the end, but \<^verbatim>\<open>start + 1\<close> is
  then a slice bound of its own: from the last fragment (\<open>start = -1\<close>) the loop goes
  on at position 0.
\<close>

lemma get_paragraph_negative_start:
  "get_paragraph paragraph_fragments (- 1) None = Inr (''klab cdgh'', 2)"
  by (simp add: get_paragraph_def py_index_def py_slice_def slice_bound_def slice_end_def
      paragraph_fragments_def sized_fragment_def text_or_to_string_def to_string_def)

lemma absent_if_empty_sel [simp]:
  "text_or_to_string (absent_if_empty f) = text_or_to_string f"
  "frag_font_size (absent_if_empty f) = frag_font_size f"
  "index (absent_if_empty f) = index f"
  by (simp_all add: absent_if_empty_def text_or_to_string_def to_string_def)

lemma paragraph_loop_absent_if_empty:
  "paragraph_loop (absent_if_empty previous) acc b (map absent_if_empty xs)
   = paragraph_loop previous acc b xs"
  by (induction xs arbitrary: previous acc) simp_all

text \<open>
  C10. A fragment whose override text is the empty string contributes its span texts
  joined by one space, and \<open>get_paragraph\<close> returns the same result as on the
  fragment list in which every empty override text is absent (\<^verbatim>\<open>None\<close>).
\<close>

theorem get_paragraph_empty_override:
  "(frag_text fragment = Some [] \<longrightarrow>
      text_or_to_string fragment = str_join '' '' (map span_text (spans fragment)))
   \<and> get_paragraph (map absent_if_empty fragments) start end
       = get_paragraph fragments start end"
proof
  show "frag_text fragment = Some [] \<longrightarrow>
      text_or_to_string fragment = str_join '' '' (map span_text (spans fragment))"
    by (simp add: text_or_to_string_def to_string_def)
next
  show "get_paragraph (map absent_if_empty fragments) start end
       = get_paragraph fragments start end"
    by (cases "py_index fragments start")
       (simp_all add: get_paragraph_def py_index_map py_slice_map paragraph_loop_absent_if_empty)
qed

theorem get_paragraph_empty_override_witness:
  "frag_text (empty_override_fragments ! 0) = Some []
   \<and> text_or_to_string (empty_override_fragments ! 0) = ''ab cd''
   \<and> get_paragraph empty_override_fragments 0 None = Inr (''ab cdef gh'', 0)
   \<and> get_paragraph (map absent_if_empty empty_override_fragments) 0 None
       = Inr (''ab cdef gh'', 0)"
proof -
  have t: "frag_text (empty_override_fragments ! 0) = Some []"
    by (simp add: empty_override_fragments_def sized_fragment_def)
  have g: "get_paragraph empty_override_fragments 0 None = Inr (''ab cdef gh'', 0)"
    by (simp add: get_paragraph_def py_index_def py_slice_def slice_bound_def slice_end_def
      empty_override_fragments_def sized_fragment_def text_or_to_string_def to_string_def)
  from get_paragraph_empty_override
    [of "empty_override_fragments ! 0" empty_override_fragments 0 None] t g
  show ?thesis
    by (simp add: empty_override_fragments_def sized_fragment_def)
qed

section \<open>The hyperlink merger\<close>

lemma str_join_empty: "str_join [] ts = concat ts"
  by (induction ts rule: induct_list012) simp_all

lemma HYPERLINK_PATTERN_match_prefix:
  "HYPERLINK_PATTERN_match s = (prefix ''http://'' s \<or> prefix ''https://'' s)"
  by (simp add: HYPERLINK_PATTERN_match_def)

lemma join_fragment_spans:
  "spans fragment \<noteq> [] \<Longrightarrow>
   join_fragment fragment =
     Inr (if is_hyperlink fragment then joined_text fragment else fragment)"
  by (cases "spans fragment")
     (simp_all add: join_fragment_def is_hyperlink_def joined_text_def to_string_def
       str_join_empty HYPERLINK_PATTERN_match_prefix)

lemma join_loop_spans:
  "\<forall>f \<in> set xs. spans f \<noteq> [] \<Longrightarrow>
   join_loop xs = (map (\<lambda>f. if is_hyperlink f then joined_text f else f) xs, None)"
  by (induction xs) (simp_all add: join_fragment_spans)

lemma join_loop_length: "length (fst (join_loop xs)) = length xs"
  by (induction xs) (auto split: sum.split prod.split)

lemma slice_bound_le: "slice_bound n i \<le> n"
  unfolding slice_bound_def by (cases "i < 0") simp_all

lemma slice_end_le: "slice_end n e \<le> n"
  by (simp add: slice_end_def slice_bound_le split: option.split)

lemma py_slice_length:
  "length (py_slice xs start end)
   = slice_end (length xs) end - slice_bound (length xs) start"
  using slice_end_le [of "length xs" "end"]
  by (simp add: py_slice_def Let_def)

lemma py_slice_nth:
  assumes "slice_bound (length xs) start \<le> i" and "i < slice_end (length xs) end"
  shows "py_slice xs start end ! (i - slice_bound (length xs) start) = xs ! i"
  using assms slice_end_le [of "length xs" "end"]
  by (simp add: py_slice_def Let_def)

text \<open>A list with the part from \<open>s\<close> to \<open>e\<close> replaced by a list of the same length.\<close>

lemma replaced_nth:
  assumes "s \<le> length xs" and "e \<le> length xs" and "length mid = e - s" and "i < length xs"
  shows "(take s xs @ mid @ drop (max s e) xs) ! i
         = (if s \<le> i \<and> i < e then mid ! (i - s) else xs ! i)"
proof -
  consider "i < s" | "s \<le> i" "i < e" | "s \<le> i" "e \<le> i" by linarith
  then show ?thesis
  proof cases
    case 1
    with assms show ?thesis by (simp add: nth_append)
  next
    case 2
    then have "i - s < length mid"
      using assms(3) by linarith
    with 2 assms show ?thesis by (simp add: nth_append)
  next
    case 3
    have l1: "length (take s xs) = s"
      using assms(1) by simp
    have n1: "\<not> i < length (take s xs)"
      using 3 l1 by simp
    have n2: "\<not> i - s < length mid"
      using 3 assms(3) by linarith
    have "(take s xs @ mid @ drop (max s e) xs) ! i = (mid @ drop (max s e) xs) ! (i - s)"
      using n1 l1 by (simp only: nth_append if_False)
    also have "\<dots> = drop (max s e) xs ! (i - s - length mid)"
      using n2 by (simp only: nth_append if_False)
    also have "\<dots> = xs ! (max s e + (i - s - length mid))"
      using assms(1,2) by (intro nth_drop) simp
    also have "max s e + (i - s - length mid) = i"
      using 3 assms(3) by (simp add: max_def)
    finally show ?thesis using 3 by simp
  qed
qed

lemma replaced_length:
  assumes "s \<le> length xs" and "e \<le> length xs" and "length mid = e - s"
  shows "length (take s xs @ mid @ drop (max s e) xs) = length xs"
  using assms by (simp add: max_def)

lemma replaced_parts:
  assumes "s \<le> length xs" and "e \<le> length xs" and "length mid = e - s"
  shows "take s (take s xs @ mid @ drop (max s e) xs) = take s xs"
    and "take (e - s) (drop s (take s xs @ mid @ drop (max s e) xs)) = mid"
    and "drop (max s e) (take s xs @ mid @ drop (max s e) xs) = drop (max s e) xs"
proof -
  have l1: "length (take s xs) = s"
    using assms(1) by simp
  show "take s (take s xs @ mid @ drop (max s e) xs) = take s xs"
    using l1 by simp
  show "take (e - s) (drop s (take s xs @ mid @ drop (max s e) xs)) = mid"
    using l1 assms(3) by simp
  have "length (take s xs @ mid) = max s e"
    using l1 assms(3) by (simp add: max_def)
  then show "drop (max s e) (take s xs @ mid @ drop (max s e) xs) = drop (max s e) xs"
    by (metis append.assoc append_eq_conv_conj)
qed

lemma join_hyperlinks_unfold:
  "join_hyperlinks fragments start end =
     (take (slice_bound (length fragments) start) fragments
        @ fst (join_loop (py_slice fragments start end))
        @ drop (max (slice_bound (length fragments) start) (slice_end (length fragments) end))
            fragments,
      snd (join_loop (py_slice fragments start end)))"
  by (simp add: join_hyperlinks_def Let_def split: prod.split)

lemma join_hyperlinks_nth:
  assumes "i < length fragments"
  shows "fst (join_hyperlinks fragments start end) ! i
         = (if slice_bound (length fragments) start \<le> i
               \<and> i < slice_end (length fragments) end
            then fst (join_loop (py_slice fragments start end))
                   ! (i - slice_bound (length fragments) start)
            else fragments ! i)"
  unfolding join_hyperlinks_unfold fst_conv
  by (rule replaced_nth [OF slice_bound_le slice_end_le _ assms])
     (simp add: join_loop_length py_slice_length)

lemma join_hyperlinks_length:
  "length (fst (join_hyperlinks fragments start end)) = length fragments"
  unfolding join_hyperlinks_unfold fst_conv
  by (rule replaced_length [OF slice_bound_le slice_end_le])
     (simp add: join_loop_length py_slice_length)

lemma link_slice: "py_slice link_fragments 0 None = link_fragments"
  by (simp add: py_slice_def slice_bound_def slice_end_def)

lemma link_joined:
  "join_hyperlinks link_fragments 0 None =
     ([(link_fragments ! 0)\<lparr>frag_text := Some ''https://example.com/index''\<rparr>,
       link_fragments ! 1, link_fragments ! 2,
       (link_fragments ! 3)\<lparr>frag_text := Some ''http://example.org''\<rparr>], None)"
  by (simp add: join_hyperlinks_unfold link_slice slice_bound_def slice_end_def)
     (simp add: link_fragments_def link_fragment_def join_fragment_def to_string_def
       HYPERLINK_PATTERN_match_def)

text \<open>
  C5. Let every fragment of the range \<open>[start, end)\<close> own at least one span, as every
  fragment the builder makes does. Then \<open>join_hyperlinks\<close> raises nothing and keeps
  the length of the list, and the fragment at a position \<open>i\<close> afterwards is the
  fragment before with its override text set to the concatenation, with no separator,
  of its span texts if \<open>i\<close> is in the range, the colour of the fragment is 1544191
  and the text of its first span starts with \<^verbatim>\<open>http://\<close> or \<^verbatim>\<open>https://\<close>;
  otherwise it is the fragment before, unmodified. The range of a Python slice is
  from \<open>slice_bound\<close> of the start to \<open>slice_end\<close> of the end.
\<close>

theorem join_hyperlinks_override:
  assumes "\<forall>f \<in> set (py_slice fragments start end). spans f \<noteq> []"
  shows "\<exists>joined. join_hyperlinks fragments start end = (joined, None)
     \<and> length joined = length fragments
     \<and> (\<forall>i < length fragments.
           joined ! i =
             (if slice_bound (length fragments) start \<le> i
                 \<and> i < slice_end (length fragments) end
                 \<and> frag_text_color (fragments ! i) = 1544191
                 \<and> (prefix ''http://'' (span_text (hd (spans (fragments ! i))))
                    \<or> prefix ''https://'' (span_text (hd (spans (fragments ! i)))))
              then (fragments ! i)
                     \<lparr>frag_text := Some (concat (map span_text (spans (fragments ! i))))\<rparr>
              else fragments ! i))"
proof -
  let ?s = "slice_bound (length fragments) start"
  let ?e = "slice_end (length fragments) end"
  let ?j = "\<lambda>f. if is_hyperlink f then joined_text f else f"
  have loop: "join_loop (py_slice fragments start end)
              = (map ?j (py_slice fragments start end), None)"
    using assms by (rule join_loop_spans)
  obtain joined where j: "joined = fst (join_hyperlinks fragments start end)" by simp
  have res: "join_hyperlinks fragments start end = (joined, None)"
    by (simp add: j join_hyperlinks_unfold loop)
  have len: "length joined = length fragments"
    by (simp add: j join_hyperlinks_length)
  have nth: "joined ! i =
             (if ?s \<le> i \<and> i < ?e \<and> frag_text_color (fragments ! i) = 1544191
                 \<and> (prefix ''http://'' (span_text (hd (spans (fragments ! i))))
                    \<or> prefix ''https://'' (span_text (hd (spans (fragments ! i)))))
              then (fragments ! i)
                     \<lparr>frag_text := Some (concat (map span_text (spans (fragments ! i))))\<rparr>
              else fragments ! i)" if i: "i < length fragments" for i
  proof (cases "?s \<le> i \<and> i < ?e")
    case True
    then have "i - ?s < length (py_slice fragments start end)"
      by (simp add: py_slice_length) linarith
    then have "fst (join_loop (py_slice fragments start end)) ! (i - ?s)
               = ?j (py_slice fragments start end ! (i - ?s))"
      by (simp add: loop)
    also have "py_slice fragments start end ! (i - ?s) = fragments ! i"
      using True by (simp add: py_slice_nth)
    finally show ?thesis
      using True by (auto simp: j join_hyperlinks_nth [OF i] is_hyperlink_def joined_text_def)
  next
    case False
    then show ?thesis
      by (auto simp: j join_hyperlinks_nth [OF i])
  qed
  from res len nth show ?thesis by blast
qed

theorem join_hyperlinks_override_witness:
  "map spans (py_slice link_fragments 0 None) = map spans link_fragments
   \<and> [] \<notin> set (map spans link_fragments)
   \<and> join_hyperlinks link_fragments 0 None =
     ([(link_fragments ! 0)\<lparr>frag_text := Some ''https://example.com/index''\<rparr>,
       link_fragments ! 1, link_fragments ! 2,
       (link_fragments ! 3)\<lparr>frag_text := Some ''http://example.org''\<rparr>], None)"
proof -
  have ne: "\<forall>f \<in> set (py_slice link_fragments 0 None). spans f \<noteq> []"
    by (simp add: link_slice) (simp add: link_fragments_def link_fragment_def)
  have "[] \<notin> set (map spans link_fragments)"
    by (simp add: link_fragments_def link_fragment_def)
  with join_hyperlinks_override [OF ne] show ?thesis
    by (simp add: link_slice link_joined)
qed

lemma join_fragment_idem:
  "join_fragment fragment = Inr fragment' \<Longrightarrow> join_fragment fragment' = Inr fragment'"
  by (auto simp: join_fragment_def to_string_def split: if_splits list.splits)

lemma join_loop_idem: "join_loop (fst (join_loop xs)) = join_loop xs"
proof (induction xs)
  case Nil
  show ?case by simp
next
  case (Cons fragment rest)
  show ?case
  proof (cases "join_fragment fragment")
    case (Inl e)
    then show ?thesis by simp
  next
    case (Inr fragment')
    obtain rest' r where l: "join_loop rest = (rest', r)"
      by (cases "join_loop rest")
    with Cons.IH have "join_loop rest' = (rest', r)" by simp
    with Inr l join_fragment_idem [OF Inr] show ?thesis by simp
  qed
qed

lemma py_slice_same_length:
  "length ys = length xs \<Longrightarrow>
   py_slice ys start end
   = take (slice_end (length xs) end - slice_bound (length xs) start)
       (drop (slice_bound (length xs) start) ys)"
  by (simp add: py_slice_def Let_def)

text \<open>
  C6. \<open>join_hyperlinks\<close> is idempotent: a second call over the same range leaves the
  fragment list as the first call left it, override texts included, and ends as the
  first call ended.
\<close>

theorem join_hyperlinks_idempotent:
  "join_hyperlinks (fst (join_hyperlinks fragments start end)) start end
   = join_hyperlinks fragments start end"
proof -
  let ?s = "slice_bound (length fragments) start"
  let ?e = "slice_end (length fragments) end"
  let ?mid = "fst (join_loop (py_slice fragments start end))"
  let ?joined = "take ?s fragments @ ?mid @ drop (max ?s ?e) fragments"
  have mid: "length ?mid = ?e - ?s"
    by (simp add: join_loop_length py_slice_length)
  note parts = replaced_parts [OF slice_bound_le slice_end_le mid]
  have joined: "fst (join_hyperlinks fragments start end) = ?joined"
    by (simp add: join_hyperlinks_unfold)
  have len: "length ?joined = length fragments"
    by (rule replaced_length [OF slice_bound_le slice_end_le mid])
  have slice: "py_slice ?joined start end = ?mid"
    by (simp only: py_slice_same_length [OF len] parts(2))
  have "join_hyperlinks ?joined start end
        = (take ?s ?joined @ fst (join_loop ?mid) @ drop (max ?s ?e) ?joined,
           snd (join_loop ?mid))"
    by (subst join_hyperlinks_unfold) (simp only: len slice)
  also have "\<dots> = (?joined, snd (join_loop (py_slice fragments start end)))"
    by (simp only: join_loop_idem parts(1,3))
  also have "\<dots> = join_hyperlinks fragments start end"
    by (simp add: join_hyperlinks_unfold)
  finally show ?thesis
    by (simp only: joined)
qed

section \<open>What the operations change\<close>

lemma kept_or_joined_refl: "kept_or_joined f f"
  by (simp add: kept_or_joined_def)

lemma kept_or_joined_trans:
  "kept_or_joined a b \<Longrightarrow> kept_or_joined b c \<Longrightarrow> kept_or_joined a c"
  by (auto simp: kept_or_joined_def is_hyperlink_def joined_text_def)

lemma join_fragment_kept_or_joined:
  "join_fragment fragment = Inr fragment' \<Longrightarrow> kept_or_joined fragment fragment'"
  by (cases "spans fragment")
     (auto simp: join_fragment_def kept_or_joined_def is_hyperlink_def joined_text_def
       to_string_def str_join_empty HYPERLINK_PATTERN_match_prefix split: if_splits)

lemma join_loop_kept_or_joined: "list_all2 kept_or_joined xs (fst (join_loop xs))"
proof (induction xs)
  case Nil
  show ?case by simp
next
  case (Cons fragment rest)
  show ?case
  proof (cases "join_fragment fragment")
    case (Inl e)
    then show ?thesis
      by (simp add: list_all2_refl kept_or_joined_refl)
  next
    case (Inr fragment')
    with Cons.IH join_fragment_kept_or_joined [OF Inr] show ?thesis
      by (auto split: prod.split)
  qed
qed

lemma slice_decomposition:
  "take s xs @ take (e - s) (drop s xs) @ drop (max s e) xs = xs"
proof -
  have "drop (e - s) (drop s xs) = drop (max s e) xs"
    by (simp add: max_def)
  then have "take (e - s) (drop s xs) @ drop (max s e) xs = drop s xs"
    using append_take_drop_id [of "e - s" "drop s xs"] by simp
  then show ?thesis
    using append_take_drop_id [of s xs] by simp
qed

lemma join_hyperlinks_kept_or_joined:
  "list_all2 kept_or_joined fragments (fst (join_hyperlinks fragments start end))"
proof -
  let ?s = "slice_bound (length fragments) start"
  let ?e = "slice_end (length fragments) end"
  have sl: "py_slice fragments start end = take (?e - ?s) (drop ?s fragments)"
    by (simp add: py_slice_def Let_def)
  have "list_all2 kept_or_joined
          (take ?s fragments @ py_slice fragments start end @ drop (max ?s ?e) fragments)
          (take ?s fragments @ fst (join_loop (py_slice fragments start end))
             @ drop (max ?s ?e) fragments)"
    by (intro list_all2_appendI join_loop_kept_or_joined list_all2_refl kept_or_joined_refl)
  moreover have "take ?s fragments @ py_slice fragments start end @ drop (max ?s ?e) fragments
                 = fragments"
    unfolding sl by (rule slice_decomposition)
  ultimately show ?thesis
    by (simp add: join_hyperlinks_unfold)
qed

lemma perform_kept_or_joined:
  "list_all2 kept_or_joined fragments (snd (perform operation fragments))"
  by (cases operation)
     (simp_all add: list_all2_refl kept_or_joined_refl split: prod.split option.split,
      metis join_hyperlinks_kept_or_joined fst_conv)

lemma perform_all_kept_or_joined:
  "list_all2 kept_or_joined fragments (perform_all ops fragments)"
proof (induction ops arbitrary: fragments)
  case Nil
  show ?case by (simp add: list_all2_refl kept_or_joined_refl)
next
  case (Cons operation rest)
  have "list_all2 kept_or_joined fragments (snd (perform operation fragments))"
    by (rule perform_kept_or_joined)
  moreover have "list_all2 kept_or_joined (snd (perform operation fragments))
      (perform_all rest (snd (perform operation fragments)))"
    by (rule Cons.IH)
  ultimately have "list_all2 kept_or_joined fragments
      (perform_all rest (snd (perform operation fragments)))"
    by (rule list_all2_trans [rotated]) (rule kept_or_joined_trans)
  then show ?case by simp
qed

lemma perform_not_join: "\<not> is_join operation \<Longrightarrow> snd (perform operation fragments) = fragments"
  by (cases operation) simp_all

lemma perform_all_no_join:
  "\<forall>operation \<in> set ops. \<not> is_join operation \<Longrightarrow> perform_all ops fragments = fragments"
  by (induction ops arbitrary: fragments) (simp_all add: perform_not_join)

lemma is_join_iff: "is_join operation = (\<exists>start end. operation = Join_hyperlinks start end)"
  by (cases operation) simp_all

text \<open>
  C7. After any sequence of calls the fragment list has the length it had, and every
  fragment has the index, spans, font size, font family and colour it had. If the
  override text of a fragment has changed, a call of \<open>join_hyperlinks\<close> is among the
  calls, the fragment has the colour 1544191 and a first span whose text starts with
  \<^verbatim>\<open>http://\<close> or \<^verbatim>\<open>https://\<close>, and the override text is the concatenation
  of its span texts.
\<close>

theorem operations_change_override_only:
  "length (perform_all ops fragments) = length fragments
   \<and> (\<forall>i < length fragments.
         index (perform_all ops fragments ! i) = index (fragments ! i)
         \<and> spans (perform_all ops fragments ! i) = spans (fragments ! i)
         \<and> frag_font_size (perform_all ops fragments ! i) = frag_font_size (fragments ! i)
         \<and> frag_font_family (perform_all ops fragments ! i) = frag_font_family (fragments ! i)
         \<and> frag_text_color (perform_all ops fragments ! i) = frag_text_color (fragments ! i)
         \<and> (frag_text (perform_all ops fragments ! i) \<noteq> frag_text (fragments ! i) \<longrightarrow>
               (\<exists>start end. Join_hyperlinks start end \<in> set ops)
               \<and> frag_text_color (fragments ! i) = 1544191
               \<and> spans (fragments ! i) \<noteq> []
               \<and> (prefix ''http://'' (span_text (hd (spans (fragments ! i))))
                  \<or> prefix ''https://'' (span_text (hd (spans (fragments ! i)))))
               \<and> frag_text (perform_all ops fragments ! i)
                   = Some (concat (map span_text (spans (fragments ! i))))))"
proof (intro conjI allI impI)
  note all = perform_all_kept_or_joined [of fragments ops]
  show "length (perform_all ops fragments) = length fragments"
    using list_all2_lengthD [OF all] by simp
  fix i assume i: "i < length fragments"
  note k = list_all2_nthD [OF all i]
  show "index (perform_all ops fragments ! i) = index (fragments ! i)"
    using k by (auto simp: kept_or_joined_def joined_text_def)
  show "spans (perform_all ops fragments ! i) = spans (fragments ! i)"
    using k by (auto simp: kept_or_joined_def joined_text_def)
  show "frag_font_size (perform_all ops fragments ! i) = frag_font_size (fragments ! i)"
    using k by (auto simp: kept_or_joined_def joined_text_def)
  show "frag_font_family (perform_all ops fragments ! i) = frag_font_family (fragments ! i)"
    using k by (auto simp: kept_or_joined_def joined_text_def)
  show "frag_text_color (perform_all ops fragments ! i) = frag_text_color (fragments ! i)"
    using k by (auto simp: kept_or_joined_def joined_text_def)
  assume changed: "frag_text (perform_all ops fragments ! i) \<noteq> frag_text (fragments ! i)"
  then have j: "is_hyperlink (fragments ! i)" "spans (fragments ! i) \<noteq> []"
    "perform_all ops fragments ! i = joined_text (fragments ! i)"
    using k by (auto simp: kept_or_joined_def)
  show "\<exists>start end. Join_hyperlinks start end \<in> set ops"
  proof (rule ccontr)
    assume "\<not> (\<exists>start end. Join_hyperlinks start end \<in> set ops)"
    then have "\<forall>operation \<in> set ops. \<not> is_join operation"
      by (auto simp: is_join_iff)
    then have "perform_all ops fragments = fragments"
      by (rule perform_all_no_join)
    with changed show False by simp
  qed
  show "frag_text_color (fragments ! i) = 1544191"
    using j(1) by (simp add: is_hyperlink_def)
  show "spans (fragments ! i) \<noteq> []"
    by (rule j(2))
  show "prefix ''http://'' (span_text (hd (spans (fragments ! i))))
        \<or> prefix ''https://'' (span_text (hd (spans (fragments ! i))))"
    using j(1) by (simp add: is_hyperlink_def)
  show "frag_text (perform_all ops fragments ! i)
        = Some (concat (map span_text (spans (fragments ! i))))"
    by (simp add: j(3) joined_text_def)
qed

theorem operations_change_override_only_witness:
  "(0::nat) < length link_fragments
   \<and> length (perform_all example_operations link_fragments) = length link_fragments
   \<and> frag_text (perform_all example_operations link_fragments ! 0)
       \<noteq> frag_text (link_fragments ! 0)
   \<and> Join_hyperlinks 0 None \<in> set example_operations
   \<and> frag_text_color (link_fragments ! 0) = 1544191
   \<and> span_text (hd (spans (link_fragments ! 0))) = ''https://example.com''
   \<and> frag_text (perform_all example_operations link_fragments ! 0)
       = Some (concat (map span_text (spans (link_fragments ! 0))))
   \<and> perform_all example_operations link_fragments
       = [(link_fragments ! 0)\<lparr>frag_text := Some ''https://example.com/index''\<rparr>,
          link_fragments ! 1, link_fragments ! 2,
          (link_fragments ! 3)\<lparr>frag_text := Some ''http://example.org''\<rparr>]"
proof -
  note frame = operations_change_override_only [of example_operations link_fragments]
  have run: "perform_all example_operations link_fragments
     = [(link_fragments ! 0)\<lparr>frag_text := Some ''https://example.com/index''\<rparr>,
        link_fragments ! 1, link_fragments ! 2,
        (link_fragments ! 3)\<lparr>frag_text := Some ''http://example.org''\<rparr>]"
    by (simp add: example_operations_def link_joined split: sum.split prod.split)
  have pos: "(0::nat) < length link_fragments"
    by (simp add: link_fragments_def)
  have facts: "frag_text (link_fragments ! 0) = None"
    "frag_text_color (link_fragments ! 0) = 1544191"
    "span_text (hd (spans (link_fragments ! 0))) = ''https://example.com''"
    "Join_hyperlinks 0 None \<in> set example_operations"
    by (simp_all add: link_fragments_def link_fragment_def example_operations_def)
  have changed: "frag_text (perform_all example_operations link_fragments ! 0)
       \<noteq> frag_text (link_fragments ! 0)"
    by (simp add: run facts(1))
  from frame have len:
    "length (perform_all example_operations link_fragments) = length link_fragments"
    by (rule conjunct1)
  from conjunct2 [OF frame, rule_format, OF pos] changed
  have "frag_text (perform_all example_operations link_fragments ! 0)
       = Some (concat (map span_text (spans (link_fragments ! 0))))"
    by blast
  with pos len changed facts run show ?thesis by simp
qed

section \<open>The text locator\<close>

lemma matching_positions_Nil: "matching_positions t [] = []"
  by (simp add: matching_positions_def)

lemma matching_positions_Cons:
  "matching_positions t (sp # rest)
   = (if span_text sp = t then [0] else []) @ map Suc (matching_positions t rest)"
proof -
  have "[0..<length (sp # rest)] = 0 # map Suc [0..<length rest]"
    by (simp add: upt_conv_Cons map_Suc_upt del: upt_Suc)
  then show ?thesis
    by (simp add: matching_positions_def filter_map comp_def)
qed

lemma find_span_matching:
  "find_span t k sps =
     (case matching_positions t sps of [] \<Rightarrow> None | i # _ \<Rightarrow> Some (k + i))"
proof (induction sps arbitrary: k)
  case Nil
  show ?case by (simp add: matching_positions_Nil)
next
  case (Cons sp rest)
  show ?case
  proof (cases "span_text sp = t")
    case True
    then show ?thesis by (simp add: matching_positions_Cons)
  next
    case False
    then show ?thesis
      by (simp add: matching_positions_Cons Cons.IH split: list.split)
  qed
qed

lemma comprehension_filter:
  "concat (map (\<lambda>i. if P i then [g i] else []) xs) = map g (filter P xs)"
  by (induction xs) simp_all

lemma index_loop_matching:
  "index_loop t xs =
     (case concat (map (\<lambda>fragment. map (\<lambda>i. (index fragment, int i))
                         (matching_positions t (spans fragment))) xs) of
        [] \<Rightarrow> (-1, -1)
      | first # _ \<Rightarrow> first)"
proof (induction xs)
  case Nil
  show ?case by simp
next
  case (Cons fragment rest)
  show ?case
  proof (cases "matching_positions t (spans fragment)")
    case Nil
    then show ?thesis by (simp add: find_span_matching Cons.IH)
  next
    case (Cons i more)
    then show ?thesis by (simp add: find_span_matching)
  qed
qed

text \<open>
  C9. The pairs of a fragment's index and a span's position in that fragment, for the
  fragments of the range \<open>[start, end)\<close> in order, the spans of each fragment in
  order, and only the spans whose text is equal to the query, are the matches in
  document order. \<open>get_index_by_text\<close> returns the first of them, and \<open>(-1, -1)\<close>
  when there is none. A span whose text is not the query is not in the list, so it is
  never reported, however much of the query it holds or in whatever case.
\<close>

theorem get_index_by_text_first_match:
  "get_index_by_text fragments t start end =
     (case [(index fragment, int i).
              fragment \<leftarrow> py_slice fragments start end,
              i \<leftarrow> [0..<length (spans fragment)],
              span_text (spans fragment ! i) = t] of
        [] \<Rightarrow> (-1, -1)
      | first # _ \<Rightarrow> first)"
  by (simp add: get_index_by_text_def index_loop_matching comprehension_filter
      matching_positions_def)

text \<open>
  On the fragments of the first example scenario: a match in the second span of the first
  fragment, a match outside the range, a part of a span's text, and another case.
\<close>

lemma get_index_by_text_examples:
  "get_index_by_text example_fragments '' World'' 0 None = (0, 1)"
  "get_index_by_text example_fragments ''Title'' 0 None = (1, 0)"
  "get_index_by_text example_fragments ''Title'' 0 (Some 1) = (-1, -1)"
  "get_index_by_text example_fragments ''World'' 0 None = (-1, -1)"
  "get_index_by_text example_fragments ''title'' 0 None = (-1, -1)"
  by (simp_all add: get_index_by_text_def py_slice_def slice_bound_def slice_end_def
      example_fragments_def example_spans_def)

end
